theory Spec2Isabelle
  imports Main
begin

section \<open>Python values\<close>

text \<open>
  The context server of \<^verbatim>\<open>context_server.py\<close> stores whatever its callers and its
  snapshot files hand it: the dataclass annotations are not enforced at run time. The
  values are therefore modelled as Python has them, dynamically typed: the JSON-shaped
  values \<^verbatim>\<open>None\<close>, booleans, integers, strings, lists and dictionaries. A dictionary is
  its list of items in insertion order; its keys are the hashable scalars. Numbers are
  Python's unbounded integers (floats are left out), and a \<open>char\<close> stands for one
  character of a Python string.
\<close>

datatype exn = TypeError | ValueError | AttributeError | KeyError | OSError | JSONDecodeError

datatype pykey = KNone | KBool bool | KInt int | KStr string

datatype pyval =
    PNone
  | PBool bool
  | PInt int
  | PStr string
  | PList "pyval list"
  | PDict "(pykey \<times> pyval) list"

type_synonym pydict = "(pykey \<times> pyval) list"

text \<open>Python's \<^verbatim>\<open>==\<close> on keys: \<^verbatim>\<open>True == 1\<close> and \<^verbatim>\<open>False == 0\<close>, with equal hashes.\<close>

fun norm_key :: "pykey \<Rightarrow> pykey" where
  "norm_key (KBool b) = KInt (if b then 1 else 0)"
| "norm_key k = k"

definition key_eq :: "pykey \<Rightarrow> pykey \<Rightarrow> bool" where
  "key_eq a b = (norm_key a = norm_key b)"

text \<open>\<^verbatim>\<open>hash(v)\<close>: lists and dictionaries are unhashable (\<open>None\<close> stands for the TypeError).\<close>

fun as_key :: "pyval \<Rightarrow> pykey option" where
  "as_key PNone = Some KNone"
| "as_key (PBool b) = Some (KBool b)"
| "as_key (PInt i) = Some (KInt i)"
| "as_key (PStr s) = Some (KStr s)"
| "as_key (PList _) = None"
| "as_key (PDict _) = None"

fun of_key :: "pykey \<Rightarrow> pyval" where
  "of_key KNone = PNone"
| "of_key (KBool b) = PBool b"
| "of_key (KInt i) = PInt i"
| "of_key (KStr s) = PStr s"

text \<open>\<^verbatim>\<open>d.get(k)\<close> / \<^verbatim>\<open>k in d\<close> and \<^verbatim>\<open>d[k] = v\<close> (an existing key keeps its place).\<close>

fun dict_get :: "pydict \<Rightarrow> pykey \<Rightarrow> pyval option" where
  "dict_get [] k = None"
| "dict_get ((k', v) # d) k = (if key_eq k' k then Some v else dict_get d k)"

fun dict_set :: "pydict \<Rightarrow> pykey \<Rightarrow> pyval \<Rightarrow> pydict" where
  "dict_set [] k v = [(k, v)]"
| "dict_set ((k', v') # d) k v =
     (if key_eq k' k then (k', v) # d else (k', v') # dict_set d k v)"

text \<open>\<^verbatim>\<open>iter(v)\<close>: a list gives its elements, a string its characters, a dictionary its
  keys; the other values are not iterable.\<close>

fun py_iter :: "pyval \<Rightarrow> exn + pyval list" where
  "py_iter (PList xs) = Inr xs"
| "py_iter (PStr s) = Inr (map (\<lambda>c. PStr [c]) s)"
| "py_iter (PDict d) = Inr (map (\<lambda>kv. of_key (fst kv)) d)"
| "py_iter _ = Inl TypeError"

text \<open>
  \<^verbatim>\<open>dict.update(other)\<close>. A dictionary is merged item by item. Anything else is read as
  an iterable of key/value pairs: each element must itself be iterable (TypeError), of
  length two (ValueError), with a hashable first component (TypeError); the pairs before
  a bad element have been stored when the exception is raised.
\<close>

fun merge_seq2 :: "pydict \<Rightarrow> pyval list \<Rightarrow> exn option \<times> pydict" where
  "merge_seq2 d [] = (None, d)"
| "merge_seq2 d (item # items) =
     (case py_iter item of
        Inl e \<Rightarrow> (Some TypeError, d)
      | Inr [k, v] \<Rightarrow>
          (case as_key k of
             None \<Rightarrow> (Some TypeError, d)
           | Some k' \<Rightarrow> merge_seq2 (dict_set d k' v) items)
      | Inr _ \<Rightarrow> (Some ValueError, d))"

definition dict_merge :: "pydict \<Rightarrow> pydict \<Rightarrow> pydict" where
  "dict_merge d other = foldl (\<lambda>acc kv. dict_set acc (fst kv) (snd kv)) d other"

fun dict_update :: "pydict \<Rightarrow> pyval \<Rightarrow> exn option \<times> pydict" where
  "dict_update d (PDict other) = (None, dict_merge d other)"
| "dict_update d other =
     (case py_iter other of
        Inl e \<Rightarrow> (Some e, d)
      | Inr items \<Rightarrow> merge_seq2 d items)"

text \<open>\<^verbatim>\<open>list.extend(other)\<close>: appends the elements of any iterable.\<close>

definition list_extend :: "pyval list \<Rightarrow> pyval \<Rightarrow> exn + pyval list" where
  "list_extend xs other =
     (case py_iter other of Inl e \<Rightarrow> Inl e | Inr items \<Rightarrow> Inr (xs @ items))"

text \<open>\<^verbatim>\<open>xs[start:]\<close>: a negative start counts from the end, and both are clipped.\<close>

definition slice_from :: "int \<Rightarrow> 'a list \<Rightarrow> 'a list" where
  "slice_from start xs =
     (let n = int (length xs);
          i = (if start < 0 then max 0 (start + n) else min start n)
      in drop (nat i) xs)"

section \<open>The shared context\<close>

record ContextEntry =
  model :: pyval
  timestamp :: pyval
  content :: pyval

record SharedContext =
  conversations :: "ContextEntry list"
  tool_outputs :: pyval
  discovered_info :: pyval

text \<open>\<^verbatim>\<open>SharedContext()\<close>: the three default factories.\<close>

definition empty_context :: SharedContext where
  "empty_context = \<lparr>conversations = [], tool_outputs = PList [], discovered_info = PDict []\<rparr>"

subsection \<open>\<^verbatim>\<open>store_context\<close>\<close>

text \<open>
  The state of a \<^verbatim>\<open>ContextServer\<close> is its \<^verbatim>\<open>shared_context\<close>; every operation takes
  it and returns it together with the exception raised, if any. The clock reading
  \<^verbatim>\<open>datetime.now().isoformat()\<close> is the parameter \<open>now\<close>.
\<close>

definition merge_discoveries :: "pydict \<Rightarrow> SharedContext \<Rightarrow> exn option \<times> SharedContext" where
  "merge_discoveries context s =
     (case dict_get context (KStr ''discoveries'') of
        None \<Rightarrow> (None, s)
      | Some d \<Rightarrow>
          (case discovered_info s of
             PDict di \<Rightarrow>
               (case dict_update di d of
                  (e, di') \<Rightarrow> (e, s\<lparr>discovered_info := PDict di'\<rparr>))
           | _ \<Rightarrow> (Some AttributeError, s)))"

definition merge_tool_outputs :: "pydict \<Rightarrow> SharedContext \<Rightarrow> exn option \<times> SharedContext" where
  "merge_tool_outputs context s =
     (case dict_get context (KStr ''tool_outputs'') of
        None \<Rightarrow> (None, s)
      | Some t \<Rightarrow>
          (case tool_outputs s of
             PList tos \<Rightarrow>
               (case list_extend tos t of
                  Inl e \<Rightarrow> (Some e, s)
                | Inr tos' \<Rightarrow> (None, s\<lparr>tool_outputs := PList tos'\<rparr>))
           | _ \<Rightarrow> (Some AttributeError, s)))"

definition new_entry :: "string \<Rightarrow> string \<Rightarrow> pydict \<Rightarrow> ContextEntry" where
  "new_entry mdl now context = \<lparr>model = PStr mdl, timestamp = PStr now, content = PDict context\<rparr>"

definition store_context ::
  "string \<Rightarrow> string \<Rightarrow> pydict \<Rightarrow> SharedContext \<Rightarrow> exn option \<times> SharedContext" where
  "store_context mdl now context s =
     (let entry = new_entry mdl now context;
          s1 = s\<lparr>conversations := conversations s @ [entry]\<rparr>
      in case merge_discoveries context s1 of
           (Some e, s2) \<Rightarrow> (Some e, s2)
         | (None, s2) \<Rightarrow> merge_tool_outputs context s2)"

text \<open>A sequence of calls by a caller that carries on after an exception.\<close>

type_synonym call = "string \<times> string \<times> pydict"

definition store_call :: "SharedContext \<Rightarrow> call \<Rightarrow> SharedContext" where
  "store_call s c = (case c of (mdl, now, context) \<Rightarrow> snd (store_context mdl now context s))"

definition store_all :: "call list \<Rightarrow> SharedContext \<Rightarrow> SharedContext" where
  "store_all calls s = foldl store_call s calls"

definition entry_of_call :: "call \<Rightarrow> ContextEntry" where
  "entry_of_call c = (case c of (mdl, now, context) \<Rightarrow> new_entry mdl now context)"

subsection \<open>\<^verbatim>\<open>get_context\<close>\<close>

text \<open>\<^verbatim>\<open>obj.get(key, default)\<close>: only a dictionary has the method.\<close>

definition py_get :: "pyval \<Rightarrow> string \<Rightarrow> pyval \<Rightarrow> exn + pyval" where
  "py_get obj key dflt =
     (case obj of
        PDict d \<Rightarrow> Inr (case dict_get d (KStr key) of None \<Rightarrow> dflt | Some v \<Rightarrow> v)
      | _ \<Rightarrow> Inl AttributeError)"

definition ebind :: "exn + 'a \<Rightarrow> ('a \<Rightarrow> exn + 'b) \<Rightarrow> exn + 'b" where
  "ebind x f = (case x of Inl e \<Rightarrow> Inl e | Inr v \<Rightarrow> f v)"

text \<open>One element of \<^verbatim>\<open>_format_previous_analysis\<close>: the dictionary built for \<open>conv\<close>.\<close>

definition format_entry :: "ContextEntry \<Rightarrow> exn + pyval" where
  "format_entry conv =
     ebind (py_get (content conv) ''summary'' (PStr [])) (\<lambda>summary.
     ebind (py_get (content conv) ''findings'' (PList [])) (\<lambda>findings.
     ebind (py_get (content conv) ''suggestions'' (PList [])) (\<lambda>suggestions.
       Inr (PDict [(KStr ''model'', model conv),
                   (KStr ''timestamp'', timestamp conv),
                   (KStr ''summary'', summary),
                   (KStr ''findings'', findings),
                   (KStr ''suggestions'', suggestions)]))))"

fun format_previous_analysis :: "ContextEntry list \<Rightarrow> exn + pyval list" where
  "format_previous_analysis [] = Inr []"
| "format_previous_analysis (conv # convs) =
     ebind (format_entry conv) (\<lambda>item.
     ebind (format_previous_analysis convs) (\<lambda>items. Inr (item # items)))"

text \<open>\<^verbatim>\<open>dict(v)\<close>: a dictionary is copied, anything else is read as pairs.\<close>

definition py_dict :: "pyval \<Rightarrow> exn + pydict" where
  "py_dict v =
     (case v of
        PDict d \<Rightarrow> Inr d
      | _ \<Rightarrow> (case dict_update [] v of (None, d) \<Rightarrow> Inr d | (Some e, d) \<Rightarrow> Inl e))"

text \<open>\<^verbatim>\<open>v[start:]\<close>: lists and strings can be sliced; a dictionary cannot be subscripted
  with a slice (a TypeError up to Python 3.11), and the scalars not at all.\<close>

fun py_slice_from :: "int \<Rightarrow> pyval \<Rightarrow> exn + pyval" where
  "py_slice_from start (PList xs) = Inr (PList (slice_from start xs))"
| "py_slice_from start (PStr s) = Inr (PStr (slice_from start s))"
| "py_slice_from start _ = Inl TypeError"

record View =
  previous_analysis :: "pyval list"
  key_findings :: pydict
  recent_tool_outputs :: pyval

text \<open>The conversations \<^verbatim>\<open>get_context\<close> formats: those of the other models, cut by
  \<^verbatim>\<open>[-max_entries:]\<close>.\<close>

definition other_conversations :: "string \<Rightarrow> int \<Rightarrow> SharedContext \<Rightarrow> ContextEntry list" where
  "other_conversations for_model max_entries s =
     slice_from (- max_entries) (filter (\<lambda>conv. model conv \<noteq> PStr for_model) (conversations s))"

definition get_context :: "string \<Rightarrow> int \<Rightarrow> SharedContext \<Rightarrow> exn + View" where
  "get_context for_model max_entries s =
     ebind (format_previous_analysis (other_conversations for_model max_entries s)) (\<lambda>pa.
     ebind (py_dict (discovered_info s)) (\<lambda>kf.
     ebind (py_slice_from (- 10) (tool_outputs s)) (\<lambda>rto.
       Inr \<lparr>previous_analysis = pa, key_findings = kf, recent_tool_outputs = rto\<rparr>)))"

subsection \<open>\<^verbatim>\<open>clear_context\<close> and \<^verbatim>\<open>get_summary\<close>\<close>

definition clear_context :: "SharedContext \<Rightarrow> SharedContext" where
  "clear_context s = empty_context"






subsection \<open>\<^verbatim>\<open>export_context\<close> and \<^verbatim>\<open>import_context\<close>\<close>

text \<open>\<^verbatim>\<open>ContextEntry.to_dict\<close> (\<^verbatim>\<open>asdict\<close>) and \<^verbatim>\<open>SharedContext.to_dict\<close>.\<close>

definition entry_to_dict :: "ContextEntry \<Rightarrow> pyval" where
  "entry_to_dict c =
     PDict [(KStr ''model'', model c), (KStr ''timestamp'', timestamp c), (KStr ''content'', content c)]"

definition to_dict :: "SharedContext \<Rightarrow> pyval" where
  "to_dict s =
     PDict [(KStr ''conversations'', PList (map entry_to_dict (conversations s))),
            (KStr ''tool_outputs'', tool_outputs s),
            (KStr ''discovered_info'', discovered_info s)]"

text \<open>
  The file is written by \<^verbatim>\<open>json.dump\<close> and read by \<^verbatim>\<open>json.load\<close>. What the pair does
  to a value is modelled, not the text between them: \<^verbatim>\<open>json.dump\<close> writes every
  dictionary key as a string (\<^verbatim>\<open>1\<close> as \<^verbatim>\<open>"1"\<close>, \<^verbatim>\<open>True\<close> as \<^verbatim>\<open>"true"\<close>, \<^verbatim>\<open>None\<close> as
  \<^verbatim>\<open>"null"\<close>), and \<^verbatim>\<open>json.load\<close> builds each object item by item, so that of two equal
  names the later value stays.
\<close>

definition digit_char :: "nat \<Rightarrow> char" where
  "digit_char n = char_of (48 + n)"

fun str_of_nat :: "nat \<Rightarrow> string" where
  "str_of_nat n = (if n < 10 then [digit_char n] else str_of_nat (n div 10) @ [digit_char (n mod 10)])"

definition str_of_int :: "int \<Rightarrow> string" where
  "str_of_int i = (if i < 0 then CHR ''-'' # str_of_nat (nat (- i)) else str_of_nat (nat i))"

fun json_key :: "pykey \<Rightarrow> string" where
  "json_key (KStr s) = s"
| "json_key (KInt i) = str_of_int i"
| "json_key (KBool b) = (if b then ''true'' else ''false'')"
| "json_key KNone = ''null''"

fun json_dump_load :: "pyval \<Rightarrow> pyval" where
  "json_dump_load (PList xs) = PList (map json_dump_load xs)"
| "json_dump_load (PDict d) =
     PDict (dict_merge [] (map (\<lambda>(k, v). (KStr (json_key k), json_dump_load v)) d))"
| "json_dump_load v = v"

text \<open>The document \<^verbatim>\<open>json.load\<close> reads from the file \<^verbatim>\<open>export_context\<close> wrote.\<close>

definition export_context :: "SharedContext \<Rightarrow> pyval" where
  "export_context s = json_dump_load (to_dict s)"

text \<open>
  \<^verbatim>\<open>ContextEntry(**conv)\<close>: \<open>conv\<close> must be a mapping with string keys, which name
  exactly the three fields; every failure is a TypeError. The field values are not
  checked.
\<close>

definition entry_fields :: "pykey list" where
  "entry_fields = [KStr ''model'', KStr ''timestamp'', KStr ''content'']"

definition entry_from :: "pyval \<Rightarrow> exn + ContextEntry" where
  "entry_from conv =
     (case conv of
        PDict d \<Rightarrow>
          (if list_all (\<lambda>kv. fst kv \<in> set entry_fields) d then
             (case (dict_get d (KStr ''model''), dict_get d (KStr ''timestamp''),
                    dict_get d (KStr ''content'')) of
                (Some m, Some t, Some c) \<Rightarrow> Inr \<lparr>model = m, timestamp = t, content = c\<rparr>
              | _ \<Rightarrow> Inl TypeError)
           else Inl TypeError)
      | _ \<Rightarrow> Inl TypeError)"

fun entries_from :: "pyval list \<Rightarrow> exn + ContextEntry list" where
  "entries_from [] = Inr []"
| "entries_from (conv # convs) =
     ebind (entry_from conv) (\<lambda>entry.
     ebind (entries_from convs) (\<lambda>entries. Inr (entry # entries)))"

text \<open>
  \<open>loaded\<close> is what \<^verbatim>\<open>open\<close> and \<^verbatim>\<open>json.load\<close> gave: an exception or the document. The
  new \<^verbatim>\<open>SharedContext\<close> is assigned only once all of its three arguments are built.
\<close>

definition import_context :: "exn + pyval \<Rightarrow> SharedContext \<Rightarrow> exn option \<times> SharedContext" where
  "import_context loaded s =
     (case
        ebind loaded (\<lambda>data.
        ebind (py_get data ''conversations'' (PList [])) (\<lambda>cs.
        ebind (py_iter cs) (\<lambda>convs.
        ebind (entries_from convs) (\<lambda>entries.
        ebind (py_get data ''tool_outputs'' (PList [])) (\<lambda>tos.
        ebind (py_get data ''discovered_info'' (PDict [])) (\<lambda>di.
          Inr \<lparr>conversations = entries, tool_outputs = tos, discovered_info = di\<rparr>))))))
      of Inl e \<Rightarrow> (Some e, s)
       | Inr s' \<Rightarrow> (None, s'))"

subsection \<open>Observations\<close>

text \<open>
  The shapes the dataclass annotations declare: every entry's \<open>content\<close> a dictionary,
  \<open>tool_outputs\<close> a list, \<open>discovered_info\<close> a dictionary. \<^verbatim>\<open>obj[key]\<close> is the
  subscript a caller reads a returned dictionary with.
\<close>

fun is_dict :: "pyval \<Rightarrow> bool" where
  "is_dict (PDict _) = True"
| "is_dict _ = False"

fun is_list :: "pyval \<Rightarrow> bool" where
  "is_list (PList _) = True"
| "is_list _ = False"

definition well_typed :: "SharedContext \<Rightarrow> bool" where
  "well_typed s =
     (list_all (\<lambda>c. is_dict (content c)) (conversations s) \<and>
      is_list (tool_outputs s) \<and> is_dict (discovered_info s))"

definition py_subscript :: "pyval \<Rightarrow> string \<Rightarrow> exn + pyval" where
  "py_subscript obj key =
     (case obj of
        PDict d \<Rightarrow> (case dict_get d (KStr key) of None \<Rightarrow> Inl KeyError | Some v \<Rightarrow> Inr v)
      | _ \<Rightarrow> Inl TypeError)"

text \<open>The example store: \<^verbatim>\<open>"claude"\<close> stored a summary and a discovery, then
  \<^verbatim>\<open>"gpt4"\<close> a summary and a finding.\<close>

definition scenario :: SharedContext where
  "scenario =
     \<lparr>conversations =
        [\<lparr>model = PStr ''claude'', timestamp = PStr ''T1'',
          content = PDict [(KStr ''summary'', PStr ''s1''),
                           (KStr ''discoveries'', PDict [(KStr ''lang'', PStr ''py'')])]\<rparr>,
         \<lparr>model = PStr ''gpt4'', timestamp = PStr ''T2'',
          content = PDict [(KStr ''summary'', PStr ''s2''),
                           (KStr ''findings'', PList [PStr ''f1''])]\<rparr>],
      tool_outputs = PList [],
      discovered_info = PDict [(KStr ''lang'', PStr ''py'')]\<rparr>"

text \<open>The values that cannot be iterated: \<^verbatim>\<open>None\<close>, booleans and numbers.\<close>

fun scalar :: "pyval \<Rightarrow> bool" where
  "scalar PNone = True"
| "scalar (PBool _) = True"
| "scalar (PInt _) = True"
| "scalar _ = False"

text \<open>
  When \<^verbatim>\<open>dict.update\<close> raises: an element of a list is a \<open>bad_pair\<close> if it is not
  iterable, not of length two, or has an unhashable first component; a value is
  \<open>unmergeable\<close> if it is not iterable, a non-empty string, or a list with a bad pair. A
  payload for which one of the two merge steps must raise: \<open>merge_fails\<close>.
\<close>

definition bad_pair :: "pyval \<Rightarrow> bool" where
  "bad_pair item =
     (case py_iter item of
        Inl e \<Rightarrow> True
      | Inr [k, v] \<Rightarrow> as_key k = None
      | Inr _ \<Rightarrow> True)"

fun unmergeable :: "pyval \<Rightarrow> bool" where
  "unmergeable (PDict other) = False"
| "unmergeable (PList items) = list_ex bad_pair items"
| "unmergeable (PStr s) = (s \<noteq> [])"
| "unmergeable _ = True"

definition merge_fails :: "pydict \<Rightarrow> bool" where
  "merge_fails context =
     ((case dict_get context (KStr ''discoveries'') of None \<Rightarrow> False | Some d \<Rightarrow> unmergeable d) \<or>
      (case dict_get context (KStr ''tool_outputs'') of None \<Rightarrow> False | Some t \<Rightarrow> scalar t))"

definition partial_calls_context :: pydict where
  "partial_calls_context = [(KStr ''discoveries'', PList [PList [PStr ''a'', PInt 1], PInt 5])]"

subsection \<open>The discovery map as a mapping\<close>

text \<open>
  A Python dictionary has no two equal keys (\<open>valid_dict\<close>), and denotes the mapping
  \<open>as_map\<close> from keys, up to Python's equality, to values. \<open>discovery_union\<close> follows
  the specification's words: the union of the \<^verbatim>\<open>discoveries\<close> sub-maps from left to
  right, a later sub-map's keys taking precedence (\<open>++\<close> on maps). \<open>discoveries_of\<close> is
  the sub-map of a payload that contains one. \<open>plain_discoveries\<close> holds of the payloads
  that do not hand \<^verbatim>\<open>dict.update\<close> a list to read as key/value pairs.
\<close>

definition as_map :: "pydict \<Rightarrow> (pykey \<rightharpoonup> pyval)" where
  "as_map d = map_of (map (\<lambda>kv. (norm_key (fst kv), snd kv)) d)"

definition valid_dict :: "pydict \<Rightarrow> bool" where
  "valid_dict d = distinct (map (\<lambda>kv. norm_key (fst kv)) d)"

definition discovery_union :: "pydict list \<Rightarrow> (pykey \<rightharpoonup> pyval)" where
  "discovery_union subs = foldl (\<lambda>m d. m ++ as_map d) Map.empty subs"

definition discoveries_of :: "pydict \<Rightarrow> pydict list" where
  "discoveries_of context =
     (case dict_get context (KStr ''discoveries'') of Some (PDict d) \<Rightarrow> [d] | _ \<Rightarrow> [])"

definition plain_discoveries :: "pydict \<Rightarrow> bool" where
  "plain_discoveries context =
     (case dict_get context (KStr ''discoveries'') of
        Some (PDict d) \<Rightarrow> valid_dict d
      | Some (PList xs) \<Rightarrow> False
      | _ \<Rightarrow> True)"

definition payload_of :: "call \<Rightarrow> pydict" where
  "payload_of c = snd (snd c)"

definition overwrite_calls :: "call list" where
  "overwrite_calls =
     [(''claude'', ''T1'', [(KStr ''discoveries'', PDict [(KStr ''x'', PInt 1)])]),
      (''gpt4'', ''T2'', [(KStr ''discoveries'', PDict [(KStr ''x'', PInt 2)])])]"

text \<open>The sub-maps of a sequence of calls, and two payloads with a list of pairs under
  \<^verbatim>\<open>"discoveries"\<close>.\<close>

definition discoveries_in :: "call list \<Rightarrow> pydict list" where
  "discoveries_in calls = concat (map (\<lambda>c. discoveries_of (payload_of c)) calls)"

definition pair_calls :: "call list" where
  "pair_calls = [(''claude'', ''T1'', [(KStr ''discoveries'', PList [PList [PStr ''x'', PInt 1]])])]"


subsection \<open>JSON documents\<close>

text \<open>
  The values \<^verbatim>\<open>json.load\<close> can return: every dictionary has string keys, no two of them
  equal. \<open>json_context\<close> is a store made of such values. \<open>str_key_pairs\<close> follows
  \<^verbatim>\<open>dict.update\<close> through a list: every key it stores, up to the first element it
  raises on, is a string. \<open>json_payload\<close> is a payload that is a JSON document and whose
  \<^verbatim>\<open>"discoveries"\<close> value, if a list, stores string keys only.
\<close>

fun is_str_key :: "pykey \<Rightarrow> bool" where
  "is_str_key (KStr _) = True"
| "is_str_key _ = False"

fun json_val :: "pyval \<Rightarrow> bool" where
  "json_val (PList xs) = list_all json_val xs"
| "json_val (PDict d) =
     (list_all (\<lambda>kv. is_str_key (fst kv) \<and> json_val (snd kv)) d \<and> distinct (map fst d))"
| "json_val _ = True"

definition json_entry :: "ContextEntry \<Rightarrow> bool" where
  "json_entry c = (json_val (model c) \<and> json_val (timestamp c) \<and> json_val (content c))"

definition json_context :: "SharedContext \<Rightarrow> bool" where
  "json_context s =
     (list_all json_entry (conversations s) \<and> json_val (tool_outputs s) \<and>
      json_val (discovered_info s))"




section \<open>Append order\<close>

lemma conversations_merge_discoveries:
  "conversations (snd (merge_discoveries context s)) = conversations s"
  by (simp add: merge_discoveries_def split: option.splits pyval.splits prod.splits)

lemma conversations_merge_tool_outputs:
  "conversations (snd (merge_tool_outputs context s)) = conversations s"
  by (simp add: merge_tool_outputs_def split: option.splits pyval.splits sum.splits)

lemma conversations_store_context:
  "conversations (snd (store_context mdl now context s)) =
     conversations s @ [new_entry mdl now context]"
proof -
  let ?s1 = "s\<lparr>conversations := conversations s @ [new_entry mdl now context]\<rparr>"
  obtain e s2 where m: "merge_discoveries context ?s1 = (e, s2)"
    by (cases "merge_discoveries context ?s1")
  have c2: "conversations s2 = conversations ?s1"
    using conversations_merge_discoveries [of "context" ?s1] m by simp
  show ?thesis
  proof (cases e)
    case None
    then show ?thesis
      using m c2 conversations_merge_tool_outputs [of "context" s2]
      by (simp add: store_context_def)
  next
    case (Some err)
    then show ?thesis
      using m c2 by (simp add: store_context_def)
  qed
qed

lemma conversations_store_all:
  "conversations (store_all calls s) = conversations s @ map entry_of_call calls"
proof (induction calls arbitrary: s)
  case Nil
  then show ?case by (simp add: store_all_def)
next
  case (Cons c calls)
  obtain mdl now ctx where c: "c = (mdl, now, ctx)"
    by (cases c)
  have "store_all (c # calls) s = store_all calls (store_call s c)"
    by (simp add: store_all_def)
  then show ?case
    using Cons.IH [of "store_call s c"] c
    by (simp add: store_call_def entry_of_call_def conversations_store_context)
qed

text \<open>
  C8. After any sequence of \<open>N\<close> calls of \<^verbatim>\<open>store_context\<close> on the empty store, also
  calls that raise in a merge step, the log has exactly \<open>N\<close> entries and lists, call by
  call and in call order, the entry each call built, whatever the timestamps are.
\<close>

theorem append_order:
  "conversations (store_all calls empty_context) = map entry_of_call calls \<and>
   length (conversations (store_all calls empty_context)) = length calls"
  by (simp add: conversations_store_all empty_context_def)

section \<open>The declared shapes\<close>

text \<open>Every store built from the empty one by calls of \<^verbatim>\<open>store_context\<close>, raising or
  not, has the shapes the annotations declare.\<close>

lemma well_typed_merge_discoveries:
  "well_typed s \<Longrightarrow> well_typed (snd (merge_discoveries ctx s))"
  by (auto simp: merge_discoveries_def well_typed_def split: option.splits pyval.splits prod.splits)

lemma well_typed_merge_tool_outputs:
  "well_typed s \<Longrightarrow> well_typed (snd (merge_tool_outputs ctx s))"
  by (auto simp: merge_tool_outputs_def well_typed_def split: option.splits pyval.splits sum.splits)

lemma well_typed_store_context:
  assumes "well_typed s"
  shows "well_typed (snd (store_context mdl now ctx s))"
proof -
  let ?s1 = "s\<lparr>conversations := conversations s @ [new_entry mdl now ctx]\<rparr>"
  have w1: "well_typed ?s1"
    using assms by (simp add: well_typed_def new_entry_def)
  obtain r s2 where m: "merge_discoveries ctx ?s1 = (r, s2)"
    by (cases "merge_discoveries ctx ?s1")
  have w2: "well_typed s2"
    using well_typed_merge_discoveries [OF w1, of ctx] m by simp
  show ?thesis
    using m w2 well_typed_merge_tool_outputs [OF w2, of ctx]
    by (cases r) (simp_all add: store_context_def)
qed

lemma well_typed_store_all: "well_typed s \<Longrightarrow> well_typed (store_all calls s)"
proof (induction calls arbitrary: s)
  case Nil
  then show ?case by (simp add: store_all_def)
next
  case (Cons c calls)
  obtain mdl now ctx where c: "c = (mdl, now, ctx)"
    by (cases c)
  have "well_typed (store_call s c)"
    using Cons.prems c by (simp add: store_call_def well_typed_store_context)
  moreover have "store_all (c # calls) s = store_all calls (store_call s c)"
    by (simp add: store_all_def)
  ultimately show ?case
    using Cons.IH by simp
qed

lemma well_typed_reachable: "well_typed (store_all calls empty_context)"
  by (rule well_typed_store_all) (simp add: well_typed_def empty_context_def)

section \<open>Filtered, bounded views\<close>

lemma ebind_Inr_iff: "ebind x f = Inr y \<longleftrightarrow> (\<exists>v. x = Inr v \<and> f v = Inr y)"
  by (cases x) (simp_all add: ebind_def)

lemma ebind_Inr [simp]: "ebind (Inr v) f = f v"
  by (simp add: ebind_def)

lemma ebind_Inl [simp]: "ebind (Inl e) f = Inl e"
  by (simp add: ebind_def)

lemma format_entry_dict:
  "is_dict (content c) \<Longrightarrow> \<exists>item. format_entry c = Inr item"
  by (cases "content c") (simp_all add: format_entry_def py_get_def)

lemma format_entry_model:
  "format_entry c = Inr item \<Longrightarrow> py_subscript item ''model'' = Inr (model c)"
  by (auto simp: format_entry_def ebind_Inr_iff py_subscript_def key_eq_def)

lemma format_previous_analysis_total:
  "list_all (\<lambda>c. is_dict (content c)) convs \<Longrightarrow> \<exists>items. format_previous_analysis convs = Inr items"
proof (induction convs)
  case Nil
  then show ?case by simp
next
  case (Cons c convs)
  then obtain item items where "format_entry c = Inr item" "format_previous_analysis convs = Inr items"
    using format_entry_dict [of c] by auto
  then show ?case by simp
qed

lemma format_previous_analysis_map:
  "format_previous_analysis convs = Inr items \<Longrightarrow> map Inr items = map format_entry convs"
  by (induction convs arbitrary: items) (auto simp: ebind_Inr_iff)

lemma set_slice_from: "set (slice_from start xs) \<subseteq> set xs"
  by (simp add: slice_from_def Let_def set_drop_subset)

lemma slice_from_last:
  assumes "1 \<le> k"
  shows "slice_from (- k) xs = drop (length xs - min (nat k) (length xs)) xs"
proof -
  have "nat (max 0 (- k + int (length xs))) = length xs - min (nat k) (length xs)"
    using assms by arith
  then show ?thesis
    using assms by (simp add: slice_from_def Let_def)
qed

lemma length_slice_from_last:
  "1 \<le> k \<Longrightarrow> length (slice_from (- k) xs) = min (nat k) (length xs)"
  by (simp add: slice_from_last)

lemma list_all_slice_from: "list_all P xs \<Longrightarrow> list_all P (slice_from start xs)"
  using set_slice_from [of start xs] by (auto simp: list_all_iff)

lemma well_typed_other:
  assumes "well_typed s"
  shows "list_all (\<lambda>c. is_dict (content c)) (other_conversations P k s)"
proof -
  have "list_all (\<lambda>c. is_dict (content c)) (conversations s)"
    using assms by (simp add: well_typed_def)
  then have "list_all (\<lambda>c. is_dict (content c))
               (filter (\<lambda>conv. model conv \<noteq> PStr P) (conversations s))"
    by (simp add: list_all_iff)
  then show ?thesis
    unfolding other_conversations_def by (rule list_all_slice_from)
qed

lemma get_context_total:
  assumes "well_typed s"
  shows "\<exists>v. get_context P k s = Inr v"
proof -
  obtain items where "format_previous_analysis (other_conversations P k s) = Inr items"
    using format_previous_analysis_total [OF well_typed_other [OF assms]] by blast
  moreover obtain d where "discovered_info s = PDict d"
    using assms by (cases "discovered_info s") (simp_all add: well_typed_def)
  moreover obtain xs where "tool_outputs s = PList xs"
    using assms by (cases "tool_outputs s") (simp_all add: well_typed_def)
  ultimately show ?thesis
    by (simp add: get_context_def py_dict_def)
qed

lemma get_context_previous_analysis:
  "get_context P k s = Inr v \<Longrightarrow>
     format_previous_analysis (other_conversations P k s) = Inr (previous_analysis v)"
  by (auto simp: get_context_def ebind_Inr_iff)

text \<open>
  C7. On a store of the declared shape \<^verbatim>\<open>get_context\<close> returns a view, and in every
  view it returns, on any store and for any bound, each element of
  \<open>previous_analysis\<close> carries under \<^verbatim>\<open>"model"\<close> a value different from the consumer's
  name \<open>P\<close> (Python's \<^verbatim>\<open>!=\<close> against a string: exact match).
\<close>

theorem self_exclusion:
  "(well_typed s \<longrightarrow> (\<exists>v. get_context P k s = Inr v)) \<and>
   (\<forall>v. get_context P k s = Inr v \<longrightarrow>
      (\<forall>item \<in> set (previous_analysis v).
         \<exists>m. py_subscript item ''model'' = Inr m \<and> m \<noteq> PStr P))"
proof (intro conjI impI allI ballI)
  assume "well_typed s"
  then show "\<exists>v. get_context P k s = Inr v" by (rule get_context_total)
next
  fix v item
  assume v: "get_context P k s = Inr v" and item: "item \<in> set (previous_analysis v)"
  let ?others = "other_conversations P k s"
  have m: "map Inr (previous_analysis v) = map format_entry ?others"
    using get_context_previous_analysis [OF v] by (rule format_previous_analysis_map)
  have "Inr item \<in> set (map format_entry ?others)"
  proof -
    have "(Inr item :: exn + pyval) \<in> set (map Inr (previous_analysis v))"
      using item by simp
    then show ?thesis
      unfolding m .
  qed
  then have "Inr item \<in> format_entry ` set ?others"
    by (simp only: set_map)
  then obtain c where c: "c \<in> set ?others" "format_entry c = Inr item"
    by (auto simp only: image_iff)
  have sub: "set ?others \<subseteq> set (filter (\<lambda>conv. model conv \<noteq> PStr P) (conversations s))"
    unfolding other_conversations_def by (rule set_slice_from)
  have "c \<in> set (filter (\<lambda>conv. model conv \<noteq> PStr P) (conversations s))"
    using c(1) sub by (rule subsetD [rotated])
  then have "model c \<noteq> PStr P"
    by simp
  then show "\<exists>m. py_subscript item ''model'' = Inr m \<and> m \<noteq> PStr P"
    using format_entry_model [OF c(2)] by (intro exI [of _ "model c"] conjI)
qed

lemma well_typed_scenario: "well_typed scenario"
  by (simp add: well_typed_def scenario_def)

theorem self_exclusion_witness:
  "\<exists>v. get_context ''gpt4'' 10 scenario = Inr v \<and>
     (\<forall>item \<in> set (previous_analysis v).
         \<exists>m. py_subscript item ''model'' = Inr m \<and> m \<noteq> PStr ''gpt4'')"
proof -
  note t = self_exclusion [of scenario "''gpt4''" 10]
  have "\<exists>v. get_context ''gpt4'' 10 scenario = Inr v"
    using conjunct1 [OF t] well_typed_scenario by (rule mp)
  then obtain v where v: "get_context ''gpt4'' 10 scenario = Inr v" ..
  show ?thesis
    using v mp [OF spec [OF conjunct2 [OF t]] v] by (intro exI conjI)
qed

text \<open>
  C3. For a bound \<open>k \<ge> 1\<close> the entries that \<^verbatim>\<open>get_context\<close> formats are the last
  \<open>min k n\<close> of the \<open>n\<close> log entries whose model differs from \<open>P\<close>, in log order: the
  filter is applied first, the cut second. On a store of the declared shape a view is
  returned, and every view returned has a \<open>previous_analysis\<close> of that length, whose
  elements are the formatted entries, one by one.
\<close>

theorem bounded_view:
  assumes "1 \<le> k"
  shows "let others = filter (\<lambda>conv. model conv \<noteq> PStr P) (conversations s);
             n = min (nat k) (length others)
         in other_conversations P k s = drop (length others - n) others \<and>
            (well_typed s \<longrightarrow> (\<exists>v. get_context P k s = Inr v)) \<and>
            (\<forall>v. get_context P k s = Inr v \<longrightarrow>
               length (previous_analysis v) = n \<and>
               map Inr (previous_analysis v) = map format_entry (drop (length others - n) others))"
proof -
  let ?others = "filter (\<lambda>conv. model conv \<noteq> PStr P) (conversations s)"
  let ?n = "min (nat k) (length ?others)"
  have sel: "other_conversations P k s = drop (length ?others - ?n) ?others"
    using assms by (simp add: other_conversations_def slice_from_last)
  have tot: "well_typed s \<longrightarrow> (\<exists>v. get_context P k s = Inr v)"
    using get_context_total by blast
  have view: "length (previous_analysis v) = ?n \<and>
      map Inr (previous_analysis v) = map format_entry (drop (length ?others - ?n) ?others)"
    if v: "get_context P k s = Inr v" for v
  proof -
    have m: "map Inr (previous_analysis v) = map format_entry (other_conversations P k s)"
      using get_context_previous_analysis [OF v] by (rule format_previous_analysis_map)
    have "length (previous_analysis v) = length (other_conversations P k s)"
      using arg_cong [OF m, of length] by simp
    also have "\<dots> = ?n"
      using assms by (simp add: other_conversations_def length_slice_from_last)
    finally show ?thesis using m sel by simp
  qed
  show ?thesis
    using sel tot view by (simp add: Let_def)
qed


theorem bounded_view_witness:
  "(1::int) \<le> 1 \<and>
   (\<exists>v. get_context ''gpt4'' 1 scenario = Inr v \<and> length (previous_analysis v) = 1)"
proof -
  note t = bounded_view [of 1 "''gpt4''" scenario, unfolded Let_def]
  have k: "(1::int) \<le> 1" by simp
  have n: "min (nat 1) (length (filter (\<lambda>conv. model conv \<noteq> PStr ''gpt4'') (conversations scenario))) = 1"
    by (simp add: scenario_def)
  obtain v where v: "get_context ''gpt4'' 1 scenario = Inr v"
    using conjunct1 [OF conjunct2 [OF t [OF k]]] well_typed_scenario by blast
  have "length (previous_analysis v) = 1"
    using conjunct2 [OF conjunct2 [OF t [OF k]]] v n by simp
  then show ?thesis using v by simp
qed

section \<open>A bound of zero or less\<close>

text \<open>
  \<^verbatim>\<open>[-max_entries:]\<close> is \<^verbatim>\<open>[0:]\<close> for a bound of zero, the whole list, and
  \<^verbatim>\<open>[n:]\<close> for a bound of \<open>-n\<close>, everything but the first \<open>n\<close>.
\<close>

lemma get_context_negative_bound:
  "get_context ''gemini'' (- 1) scenario =
     Inr \<lparr>previous_analysis =
            [PDict [(KStr ''model'', PStr ''gpt4''), (KStr ''timestamp'', PStr ''T2''),
                    (KStr ''summary'', PStr ''s2''), (KStr ''findings'', PList [PStr ''f1'']),
                    (KStr ''suggestions'', PList [])]],
          key_findings = [(KStr ''lang'', PStr ''py'')],
          recent_tool_outputs = PList []\<rparr>"
  by (simp add: get_context_def other_conversations_def slice_from_def scenario_def
      format_entry_def py_get_def py_dict_def key_eq_def)

text \<open>
  C2. With \<^verbatim>\<open>max_entries = 0\<close> the view of \<^verbatim>\<open>"gpt4"\<close> on the example store holds
  the entry of \<^verbatim>\<open>"claude"\<close>: \<open>previous_analysis\<close> is not empty.
\<close>

theorem get_context_zero_bound:
  "get_context ''gpt4'' 0 scenario =
     Inr \<lparr>previous_analysis =
            [PDict [(KStr ''model'', PStr ''claude''), (KStr ''timestamp'', PStr ''T1''),
                    (KStr ''summary'', PStr ''s1''), (KStr ''findings'', PList []),
                    (KStr ''suggestions'', PList [])]],
          key_findings = [(KStr ''lang'', PStr ''py'')],
          recent_tool_outputs = PList []\<rparr>"
  by (simp add: get_context_def other_conversations_def slice_from_def scenario_def
      format_entry_def py_get_def py_dict_def key_eq_def)

section \<open>Import\<close>

lemma import_context_raises_unchanged:
  "fst (import_context loaded s) = Some e \<Longrightarrow> snd (import_context loaded s) = s"
  by (simp add: import_context_def split: sum.splits)

lemma import_context_defaults:
  assumes "dict_get d (KStr ''conversations'') = None"
    and "dict_get d (KStr ''tool_outputs'') = None"
    and "dict_get d (KStr ''discovered_info'') = None"
  shows "import_context (Inr (PDict d)) s = (None, empty_context)"
  using assms by (simp add: import_context_def py_get_def empty_context_def)

text \<open>
  C1, as stated, fails: a document with none of the three fields is imported without
  any exception (the code has no \<^verbatim>\<open>MalformedSnapshot\<close>), and the example store is
  replaced by the empty one.
\<close>

theorem import_missing_fields_counterexample:
  "fst (import_context (Inr (PDict [])) scenario) = None \<and>
   snd (import_context (Inr (PDict [])) scenario) \<noteq> scenario"
  by (simp add: import_context_def py_get_def scenario_def)

text \<open>
  C1, amended. A document that is a JSON object with none of the fields
  \<^verbatim>\<open>conversations\<close>, \<^verbatim>\<open>tool_outputs\<close>, \<^verbatim>\<open>discovered_info\<close> is imported without
  error and replaces the store by the empty store: each absent field takes its default.
  Whenever \<^verbatim>\<open>import_context\<close> does raise, the store is what it was before the call.
\<close>

theorem import_all_or_nothing:
  "(dict_get d (KStr ''conversations'') = None \<and>
    dict_get d (KStr ''tool_outputs'') = None \<and>
    dict_get d (KStr ''discovered_info'') = None \<longrightarrow>
      import_context (Inr (PDict d)) s = (None, empty_context)) \<and>
   (\<forall>e. fst (import_context loaded s) = Some e \<longrightarrow> snd (import_context loaded s) = s)"
  using import_context_defaults [of d s] import_context_raises_unchanged [of loaded s]
  by blast

theorem import_all_or_nothing_witness:
  "import_context (Inr (PDict [(KStr ''version'', PInt 1)])) scenario = (None, empty_context) \<and>
   import_context (Inr (PList [])) scenario = (Some AttributeError, scenario) \<and>
   import_context (Inl OSError) scenario = (Some OSError, scenario)"
proof -
  note t = import_all_or_nothing [of "[(KStr ''version'', PInt 1)]" scenario "Inr (PList [])"]
  have a: "import_context (Inr (PDict [(KStr ''version'', PInt 1)])) scenario = (None, empty_context)"
    using conjunct1 [OF t] by (simp add: key_eq_def)
  have f: "fst (import_context (Inr (PList [])) scenario) = Some AttributeError"
    by (simp add: import_context_def py_get_def)
  have "snd (import_context (Inr (PList [])) scenario) = scenario"
    using conjunct2 [OF t] f by simp
  then have b: "import_context (Inr (PList [])) scenario = (Some AttributeError, scenario)"
    using f by (simp add: prod_eq_iff)
  have c: "import_context (Inl OSError) scenario = (Some OSError, scenario)"
    by (simp add: import_context_def)
  show ?thesis using a b c by simp
qed

section \<open>Exceptions in the merge steps\<close>

lemma merge_seq2_raises: "fst (merge_seq2 d items) \<noteq> None \<longleftrightarrow> list_ex bad_pair items"
proof (induction items arbitrary: d)
  case Nil
  then show ?case by simp
next
  case (Cons item items)
  show ?case
  proof (cases "bad_pair item")
    case True
    then have "fst (merge_seq2 d (item # items)) \<noteq> None"
      by (auto simp: bad_pair_def split: sum.splits list.splits option.splits)
    then show ?thesis using True by simp
  next
    case False
    then obtain k v k' where kv: "py_iter item = Inr [k, v]" "as_key k = Some k'"
      by (auto simp: bad_pair_def split: sum.splits list.splits)
    then have "merge_seq2 d (item # items) = merge_seq2 (dict_set d k' v) items"
      by simp
    then show ?thesis
      using False Cons.IH [of "dict_set d k' v"] by simp
  qed
qed

lemma bad_pair_char: "bad_pair (PStr [c])"
  by (simp add: bad_pair_def)

lemma dict_update_raises: "fst (dict_update d v) \<noteq> None \<longleftrightarrow> unmergeable v"
proof (cases v)
  case (PStr s)
  have "list_ex bad_pair (map (\<lambda>c. PStr [c]) s) \<longleftrightarrow> s \<noteq> []"
    by (cases s) (simp_all add: bad_pair_char)
  then show ?thesis
    using PStr merge_seq2_raises [of d "map (\<lambda>c. PStr [c]) s"] by simp
next
  case (PList items)
  then show ?thesis
    using merge_seq2_raises [of d items] by simp
qed simp_all

lemma list_extend_raises: "(\<exists>e. list_extend xs t = Inl e) \<longleftrightarrow> scalar t"
  by (cases t) (simp_all add: list_extend_def)

lemma fst_merge_discoveries:
  "fst (merge_discoveries ctx s) \<noteq> None \<longleftrightarrow>
     (\<exists>d. dict_get ctx (KStr ''discoveries'') = Some d \<and>
          (\<not> is_dict (discovered_info s) \<or> unmergeable d))"
proof (cases "dict_get ctx (KStr ''discoveries'')")
  case None
  then show ?thesis by (simp add: merge_discoveries_def)
next
  case (Some d)
  show ?thesis
  proof (cases "discovered_info s")
    case (PDict di)
    obtain e di' where u: "dict_update di d = (e, di')"
      by (cases "dict_update di d")
    have "e \<noteq> None \<longleftrightarrow> unmergeable d"
      using dict_update_raises [of di d] u by simp
    then show ?thesis
      using Some PDict u by (simp add: merge_discoveries_def)
  qed (use Some in \<open>simp_all add: merge_discoveries_def\<close>)
qed

lemma fst_merge_tool_outputs:
  "fst (merge_tool_outputs ctx s) \<noteq> None \<longleftrightarrow>
     (\<exists>t. dict_get ctx (KStr ''tool_outputs'') = Some t \<and>
          (\<not> is_list (tool_outputs s) \<or> scalar t))"
proof (cases "dict_get ctx (KStr ''tool_outputs'')")
  case None
  then show ?thesis by (simp add: merge_tool_outputs_def)
next
  case (Some t)
  show ?thesis
  proof (cases "tool_outputs s")
    case (PList tos)
    show ?thesis
    proof (cases "list_extend tos t")
      case (Inl e)
      then have "scalar t" using list_extend_raises [of tos t] by blast
      then show ?thesis using Some PList Inl by (simp add: merge_tool_outputs_def)
    next
      case (Inr tos')
      then have "\<not> scalar t" using list_extend_raises [of tos t] by auto
      then show ?thesis using Some PList Inr by (simp add: merge_tool_outputs_def)
    qed
  qed (use Some in \<open>simp_all add: merge_tool_outputs_def\<close>)
qed

lemma tool_outputs_merge_discoveries:
  "tool_outputs (snd (merge_discoveries ctx s)) = tool_outputs s"
  by (simp add: merge_discoveries_def split: option.splits pyval.splits prod.splits)

lemma fst_store_context:
  assumes "is_dict (discovered_info s)" and "is_list (tool_outputs s)"
  shows "fst (store_context mdl now ctx s) \<noteq> None \<longleftrightarrow> merge_fails ctx"
proof -
  let ?s1 = "s\<lparr>conversations := conversations s @ [new_entry mdl now ctx]\<rparr>"
  obtain r s2 where m: "merge_discoveries ctx ?s1 = (r, s2)"
    by (cases "merge_discoveries ctx ?s1")
  have r: "r \<noteq> None \<longleftrightarrow> (\<exists>d. dict_get ctx (KStr ''discoveries'') = Some d \<and> unmergeable d)"
    using fst_merge_discoveries [of ctx ?s1] m assms(1) by simp
  have "tool_outputs s2 = tool_outputs s"
    using tool_outputs_merge_discoveries [of ctx ?s1] m by simp
  then have t: "fst (merge_tool_outputs ctx s2) \<noteq> None \<longleftrightarrow>
                  (\<exists>t. dict_get ctx (KStr ''tool_outputs'') = Some t \<and> scalar t)"
    using fst_merge_tool_outputs [of ctx s2] assms(2) by simp
  show ?thesis
  proof (cases r)
    case None
    then have "fst (store_context mdl now ctx s) = fst (merge_tool_outputs ctx s2)"
      using m by (simp add: store_context_def)
    then show ?thesis
      using r t None by (auto simp: merge_fails_def split: option.splits)
  next
    case (Some e)
    then have "fst (store_context mdl now ctx s) = Some e"
      using m by (simp add: store_context_def)
    then show ?thesis
      using r Some by (auto simp: merge_fails_def split: option.splits)
  qed
qed

lemma store_context_raises:
  assumes "merge_fails ctx"
  shows "\<exists>e. fst (store_context mdl now ctx s) = Some e"
proof -
  let ?s1 = "s\<lparr>conversations := conversations s @ [new_entry mdl now ctx]\<rparr>"
  obtain r s2 where m: "merge_discoveries ctx ?s1 = (r, s2)"
    by (cases "merge_discoveries ctx ?s1")
  show ?thesis
  proof (cases r)
    case (Some e)
    then show ?thesis using m by (simp add: store_context_def)
  next
    case None
    have "\<not> (\<exists>d. dict_get ctx (KStr ''discoveries'') = Some d \<and> unmergeable d)"
      using fst_merge_discoveries [of ctx ?s1] m None by auto
    then obtain t where t: "dict_get ctx (KStr ''tool_outputs'') = Some t" "scalar t"
      using assms by (auto simp: merge_fails_def split: option.splits)
    then have "fst (merge_tool_outputs ctx s2) \<noteq> None"
      using fst_merge_tool_outputs [of ctx s2] by blast
    then show ?thesis
      using m None by (simp add: store_context_def)
  qed
qed

text \<open>An exception in the middle of a list: the pair before the bad element has been
  merged, the entry appended.\<close>

lemma store_context_partial_merge:
  "store_context ''m'' ''t'' partial_calls_context empty_context =
     (Some TypeError,
      \<lparr>conversations = [new_entry ''m'' ''t'' partial_calls_context],
       tool_outputs = PList [], discovered_info = PDict [(KStr ''a'', PInt 1)]\<rparr>)"
  by (simp add: store_context_def merge_discoveries_def partial_calls_context_def
      empty_context_def key_eq_def)

text \<open>
  C9, as stated, fails: an empty list under \<^verbatim>\<open>"discoveries"\<close> is not a mapping, and a
  dictionary under \<^verbatim>\<open>"tool_outputs"\<close> is not a sequence, yet neither call raises
  (\<^verbatim>\<open>dict.update\<close> reads a list as a list of pairs, \<^verbatim>\<open>list.extend\<close> takes the keys of
  a dictionary).
\<close>

theorem store_context_raise_counterexample:
  "fst (store_context ''m'' ''t'' [(KStr ''discoveries'', PList [])] empty_context) = None \<and>
   fst (store_context ''m'' ''t'' [(KStr ''tool_outputs'', PDict [(KStr ''k'', PInt 1)])] empty_context) = None"
  by (simp add: store_context_def merge_discoveries_def merge_tool_outputs_def
      list_extend_def empty_context_def key_eq_def)

text \<open>
  C9, amended. If the payload's \<^verbatim>\<open>"discoveries"\<close> value is present and cannot be merged
  (\<^verbatim>\<open>None\<close>, a boolean, a number, a non-empty string, or a list with an element that is
  not a pair with a hashable key), or its \<^verbatim>\<open>"tool_outputs"\<close> value is present and not
  iterable (\<^verbatim>\<open>None\<close>, a boolean, a number), then \<^verbatim>\<open>store_context\<close> raises, on any
  store, and the store it leaves has the new entry at the end of the log: it differs
  from the store before the call. Every other payload is stored without an exception,
  on a store whose \<open>discovered_info\<close> is a dictionary and whose \<open>tool_outputs\<close> is a list.
\<close>

theorem store_context_not_atomic:
  "(merge_fails ctx \<longrightarrow>
      (\<exists>e. fst (store_context mdl now ctx s) = Some e) \<and>
      conversations (snd (store_context mdl now ctx s)) =
        conversations s @ [new_entry mdl now ctx] \<and>
      snd (store_context mdl now ctx s) \<noteq> s) \<and>
   (\<not> merge_fails ctx \<and> is_dict (discovered_info s) \<and> is_list (tool_outputs s) \<longrightarrow>
      fst (store_context mdl now ctx s) = None)"
proof (intro conjI impI)
  assume "merge_fails ctx"
  then show "\<exists>e. fst (store_context mdl now ctx s) = Some e"
    by (rule store_context_raises)
next
  show "conversations (snd (store_context mdl now ctx s)) =
          conversations s @ [new_entry mdl now ctx]"
    by (rule conversations_store_context)
next
  have "conversations (snd (store_context mdl now ctx s)) \<noteq> conversations s"
    by (simp add: conversations_store_context)
  then show "snd (store_context mdl now ctx s) \<noteq> s"
    by auto
next
  assume "\<not> merge_fails ctx \<and> is_dict (discovered_info s) \<and> is_list (tool_outputs s)"
  then show "fst (store_context mdl now ctx s) = None"
    using fst_store_context [of s mdl now ctx] by simp
qed

theorem store_context_not_atomic_witness:
  "merge_fails partial_calls_context \<and>
   (\<exists>e. fst (store_context ''m'' ''t'' partial_calls_context empty_context) = Some e) \<and>
   conversations (snd (store_context ''m'' ''t'' partial_calls_context empty_context)) =
     [new_entry ''m'' ''t'' partial_calls_context] \<and>
   snd (store_context ''m'' ''t'' partial_calls_context empty_context) \<noteq> empty_context \<and>
   \<not> merge_fails [(KStr ''discoveries'', PList [PList [PStr ''a'', PInt 1]])] \<and>
   fst (store_context ''m'' ''t'' [(KStr ''discoveries'', PList [PList [PStr ''a'', PInt 1]])]
          empty_context) = None"
proof -
  have f: "merge_fails partial_calls_context"
    by (simp add: merge_fails_def partial_calls_context_def bad_pair_def key_eq_def)
  have g: "\<not> merge_fails [(KStr ''discoveries'', PList [PList [PStr ''a'', PInt 1]])]"
    by (simp add: merge_fails_def bad_pair_def key_eq_def)
  have e: "conversations empty_context = []" "is_dict (discovered_info empty_context)"
      "is_list (tool_outputs empty_context)"
    by (simp_all add: empty_context_def)
  note a = conjunct1 [OF store_context_not_atomic
      [of partial_calls_context "''m''" "''t''" empty_context], THEN mp, OF f]
  note b = conjunct2 [OF store_context_not_atomic
      [of "[(KStr ''discoveries'', PList [PList [PStr ''a'', PInt 1]])]" "''m''" "''t''" empty_context],
      THEN mp, OF conjI [OF g conjI [OF e(2) e(3)]]]
  show ?thesis
    using f g a b unfolding e(1) by simp
qed

section \<open>The discovery map\<close>

lemma as_map_dict_set: "as_map (dict_set d k v) = (as_map d)(norm_key k \<mapsto> v)"
  by (induction d) (auto simp: as_map_def key_eq_def)

lemma dict_get_as_map: "dict_get d k = as_map d (norm_key k)"
  by (induction d) (auto simp: as_map_def key_eq_def)

lemma as_map_dict_merge:
  "valid_dict other \<Longrightarrow> as_map (dict_merge d other) = as_map d ++ as_map other"
proof (induction other arbitrary: d)
  case Nil
  then show ?case by (simp add: dict_merge_def as_map_def)
next
  case (Cons kv other)
  have v: "valid_dict other" and n: "norm_key (fst kv) \<notin> dom (as_map other)"
    using Cons.prems by (auto simp: valid_dict_def as_map_def dom_map_of_conv_image_fst image_image)
  have "as_map (dict_merge d (kv # other)) = as_map (dict_merge (dict_set d (fst kv) (snd kv)) other)"
    by (simp add: dict_merge_def)
  also have "\<dots> = (as_map d)(norm_key (fst kv) \<mapsto> snd kv) ++ as_map other"
    by (simp only: Cons.IH [OF v] as_map_dict_set)
  also have "\<dots> = as_map d ++ (as_map other)(norm_key (fst kv) \<mapsto> snd kv)"
    using n by (simp add: map_add_upd_left)
  also have "(as_map other)(norm_key (fst kv) \<mapsto> snd kv) = as_map (kv # other)"
    by (simp add: as_map_def)
  finally show ?case .
qed

lemma merge_seq2_one_char: "snd (merge_seq2 d (PStr [c] # items)) = d"
  by simp

lemma dict_update_plain:
  "\<not> is_list v \<Longrightarrow> \<not> is_dict v \<Longrightarrow> snd (dict_update d v) = d"
proof (cases v)
  case (PStr s)
  then show ?thesis by (cases s) simp_all
qed simp_all

lemma discovered_info_merge_tool_outputs:
  "discovered_info (snd (merge_tool_outputs ctx s)) = discovered_info s"
  by (simp add: merge_tool_outputs_def split: option.splits pyval.splits sum.splits)

lemma discovered_info_merge_discoveries:
  assumes "plain_discoveries ctx" and "discovered_info s = PDict di"
  shows "\<exists>di'. discovered_info (snd (merge_discoveries ctx s)) = PDict di' \<and>
           as_map di' = foldl (\<lambda>m d. m ++ as_map d) (as_map di) (discoveries_of ctx)"
proof (cases "dict_get ctx (KStr ''discoveries'')")
  case None
  then show ?thesis
    using assms(2) by (simp add: merge_discoveries_def discoveries_of_def)
next
  case (Some v)
  show ?thesis
  proof (cases v)
    case (PDict other)
    then have "valid_dict other"
      using assms(1) Some by (simp add: plain_discoveries_def)
    then show ?thesis
      using Some PDict assms(2)
      by (simp add: merge_discoveries_def discoveries_of_def as_map_dict_merge)
  next
    case (PList xs)
    then show ?thesis
      using assms(1) Some by (simp add: plain_discoveries_def)
  next
    case PNone
    then show ?thesis
      using Some assms(2) by (simp add: merge_discoveries_def discoveries_of_def)
  next
    case (PBool b)
    then show ?thesis
      using Some assms(2) by (simp add: merge_discoveries_def discoveries_of_def)
  next
    case (PInt i)
    then show ?thesis
      using Some assms(2) by (simp add: merge_discoveries_def discoveries_of_def)
  next
    case (PStr str)
    have "snd (dict_update di (PStr str)) = di"
      by (rule dict_update_plain) simp_all
    then obtain e where "dict_update di (PStr str) = (e, di)"
      by (cases "dict_update di (PStr str)") simp
    then show ?thesis
      using Some PStr assms(2)
      by (simp add: merge_discoveries_def discoveries_of_def del: dict_update.simps)
  qed
qed

lemma discovered_info_store_context:
  assumes "plain_discoveries ctx" and "discovered_info s = PDict di"
  shows "\<exists>di'. discovered_info (snd (store_context mdl now ctx s)) = PDict di' \<and>
           as_map di' = foldl (\<lambda>m d. m ++ as_map d) (as_map di) (discoveries_of ctx)"
proof -
  let ?s1 = "s\<lparr>conversations := conversations s @ [new_entry mdl now ctx]\<rparr>"
  have d1: "discovered_info ?s1 = PDict di"
    using assms(2) by simp
  obtain r s2 where m: "merge_discoveries ctx ?s1 = (r, s2)"
    by (cases "merge_discoveries ctx ?s1")
  obtain di' where di': "discovered_info s2 = PDict di'"
      "as_map di' = foldl (\<lambda>m d. m ++ as_map d) (as_map di) (discoveries_of ctx)"
    using discovered_info_merge_discoveries [OF assms(1) d1] m by auto
  have "discovered_info (snd (store_context mdl now ctx s)) = discovered_info s2"
    using m discovered_info_merge_tool_outputs [of ctx s2]
    by (cases r) (simp_all add: store_context_def)
  then show ?thesis using di' by simp
qed

lemma discovered_info_store_all:
  assumes "\<forall>c \<in> set calls. plain_discoveries (payload_of c)" and "discovered_info s = PDict di"
  shows "\<exists>di'. discovered_info (store_all calls s) = PDict di' \<and>
           as_map di' = foldl (\<lambda>m d. m ++ as_map d) (as_map di)
                          (concat (map (\<lambda>c. discoveries_of (payload_of c)) calls))"
  using assms
proof (induction calls arbitrary: s di)
  case Nil
  then show ?case by (simp add: store_all_def)
next
  case (Cons c calls)
  obtain mdl now ctx where c: "c = (mdl, now, ctx)"
    by (cases c)
  have p: "plain_discoveries ctx"
    using Cons.prems(1) c by (simp add: payload_of_def)
  obtain d1 where d1: "discovered_info (store_call s c) = PDict d1"
      "as_map d1 = foldl (\<lambda>m d. m ++ as_map d) (as_map di) (discoveries_of ctx)"
    using discovered_info_store_context [OF p Cons.prems(2), of mdl now] c
    by (auto simp: store_call_def)
  have rest: "\<forall>c \<in> set calls. plain_discoveries (payload_of c)"
    using Cons.prems(1) by simp
  have step: "store_all (c # calls) s = store_all calls (store_call s c)"
    by (simp add: store_all_def)
  show ?case
    using Cons.IH [OF rest d1(1)] d1(2) c
    unfolding step by (simp add: payload_of_def)
qed

lemma get_context_key_findings:
  "discovered_info s = PDict di \<Longrightarrow> get_context P k s = Inr v \<Longrightarrow> key_findings v = di"
  by (auto simp: get_context_def ebind_Inr_iff py_dict_def)

lemma store_pair_calls:
  "store_all pair_calls empty_context =
     \<lparr>conversations = [new_entry ''claude'' ''T1'' [(KStr ''discoveries'', PList [PList [PStr ''x'', PInt 1]])]],
      tool_outputs = PList [], discovered_info = PDict [(KStr ''x'', PInt 1)]\<rparr>"
  by (simp add: pair_calls_def store_all_def store_call_def store_context_def merge_discoveries_def
      merge_tool_outputs_def empty_context_def key_eq_def)

text \<open>
  C6, as stated, fails: a payload with a list of pairs under \<^verbatim>\<open>"discoveries"\<close> contains
  no sub-map, and \<^verbatim>\<open>dict.update\<close> merges the pairs all the same.
\<close>

theorem discovery_pairs_counterexample:
  "discovered_info (store_all pair_calls empty_context) = PDict [(KStr ''x'', PInt 1)] \<and>
   discoveries_in pair_calls = []"
  by (simp add: store_pair_calls) (simp add: discoveries_in_def pair_calls_def discoveries_of_def payload_of_def key_eq_def)

text \<open>
  C6, amended. After any sequence of calls of \<^verbatim>\<open>store_context\<close> on the empty store in
  which no payload has a list under \<^verbatim>\<open>"discoveries"\<close>, \<open>discovered_info\<close> is a
  dictionary that denotes the left-to-right union of the \<^verbatim>\<open>discoveries\<close> sub-maps of the
  payloads that contain one, later keys overwriting earlier ones, and \<open>key_findings\<close> of
  every view is that dictionary. The instance \<^verbatim>\<open>{"x": 1}\<close> then \<^verbatim>\<open>{"x": 2}\<close> gives
  \<^verbatim>\<open>2\<close> under \<^verbatim>\<open>"x"\<close>.
\<close>

theorem discovery_map_union:
  assumes "\<forall>c \<in> set calls. plain_discoveries (payload_of c)"
  shows "\<exists>di. discovered_info (store_all calls empty_context) = PDict di \<and>
           as_map di = discovery_union (discoveries_in calls) \<and>
           (\<forall>P k v. get_context P k (store_all calls empty_context) = Inr v \<longrightarrow>
              key_findings v = di)"
proof -
  have e: "discovered_info empty_context = PDict []"
    by (simp add: empty_context_def)
  obtain di where di: "discovered_info (store_all calls empty_context) = PDict di"
      "as_map di = foldl (\<lambda>m d. m ++ as_map d) (as_map [])
                          (concat (map (\<lambda>c. discoveries_of (payload_of c)) calls))"
    using discovered_info_store_all [OF assms e] by blast
  have "as_map [] = Map.empty"
    by (simp add: as_map_def)
  then have "as_map di = discovery_union (discoveries_in calls)"
    using di(2) by (simp add: discovery_union_def discoveries_in_def)
  then show ?thesis
    using di(1) get_context_key_findings [OF di(1)] by blast
qed

theorem discovery_map_union_witness:
  "\<exists>di. discovered_info (store_all overwrite_calls empty_context) = PDict di \<and>
      as_map di (KStr ''x'') = Some (PInt 2) \<and>
      (\<forall>P k v. get_context P k (store_all overwrite_calls empty_context) = Inr v \<longrightarrow>
         dict_get (key_findings v) (KStr ''x'') = Some (PInt 2))"
proof -
  have h: "\<forall>c \<in> set overwrite_calls. plain_discoveries (payload_of c)"
    by (simp add: overwrite_calls_def plain_discoveries_def payload_of_def valid_dict_def key_eq_def)
  have u: "discovery_union (discoveries_in overwrite_calls) (KStr ''x'') = Some (PInt 2)"
    by (simp add: overwrite_calls_def discoveries_in_def discoveries_of_def payload_of_def
        discovery_union_def as_map_def key_eq_def)
  obtain di where di: "discovered_info (store_all overwrite_calls empty_context) = PDict di"
      "as_map di = discovery_union (discoveries_in overwrite_calls)"
      "\<forall>P k v. get_context P k (store_all overwrite_calls empty_context) = Inr v \<longrightarrow> key_findings v = di"
    using discovery_map_union [OF h] by blast
  have x: "as_map di (KStr ''x'') = Some (PInt 2)"
    using di(2) u by simp
  have "dict_get di (KStr ''x'') = Some (PInt 2)"
    using x by (simp add: dict_get_as_map)
  then show ?thesis
    using di(1) di(3) x by auto
qed

section \<open>Export and import\<close>

lemma key_eq_str: "is_str_key k \<Longrightarrow> key_eq k' k \<longleftrightarrow> k' = k"
  by (cases k; cases k') (simp_all add: key_eq_def)

lemma dict_set_fresh:
  "is_str_key k \<Longrightarrow> k \<notin> fst ` set d \<Longrightarrow> dict_set d k v = d @ [(k, v)]"
  by (induction d k v rule: dict_set.induct) (auto simp: key_eq_str)

lemma map_fst_dict_set:
  "is_str_key k \<Longrightarrow>
   map fst (dict_set d k v) = (if k \<in> set (map fst d) then map fst d else map fst d @ [k])"
  by (induction d k v rule: dict_set.induct) (simp_all add: key_eq_str)

lemma dict_merge_Cons:
  "dict_merge d (kv # other) = dict_merge (dict_set d (fst kv) (snd kv)) other"
  by (simp add: dict_merge_def)

lemma dict_merge_Nil: "dict_merge d [] = d"
  by (simp add: dict_merge_def)

lemma dict_merge_fresh:
  "distinct (map fst other) \<Longrightarrow> list_all (\<lambda>kv. is_str_key (fst kv)) other \<Longrightarrow>
   fst ` set other \<inter> fst ` set d = {} \<Longrightarrow> dict_merge d other = d @ other"
proof (induction other arbitrary: d)
  case Nil
  then show ?case by (simp add: dict_merge_Nil)
next
  case (Cons kv other)
  have s: "is_str_key (fst kv)" and f: "fst kv \<notin> fst ` set d"
    using Cons.prems by auto
  have step: "dict_set d (fst kv) (snd kv) = d @ [kv]"
    using dict_set_fresh [OF s f, of "snd kv"] by simp
  have "fst ` set other \<inter> fst ` set (d @ [kv]) = {}"
    using Cons.prems by auto
  moreover have "distinct (map fst other)" "list_all (\<lambda>kv. is_str_key (fst kv)) other"
    using Cons.prems by simp_all
  ultimately have "dict_merge (d @ [kv]) other = (d @ [kv]) @ other"
    using Cons.IH by blast
  then show ?case
    by (simp add: dict_merge_Cons step)
qed

lemma json_dump_load_id: "json_val v \<Longrightarrow> json_dump_load v = v"
proof (induction v rule: json_dump_load.induct)
  case (1 xs)
  have "map json_dump_load xs = xs"
    using 1 by (intro map_idI) (simp add: list_all_iff)
  then show ?case by simp
next
  case (2 d)
  have "map (\<lambda>(k, v). (KStr (json_key k), json_dump_load v)) d = d"
  proof (intro map_idI)
    fix kv assume kv: "kv \<in> set d"
    obtain k v where p: "kv = (k, v)" by (cases kv)
    have "is_str_key k" "json_val v"
      using 2(2) kv p by (auto simp: list_all_iff)
    moreover from this have "json_dump_load v = v"
      using 2(1) kv p by simp
    ultimately show "(case kv of (k, v) \<Rightarrow> (KStr (json_key k), json_dump_load v)) = kv"
      using p by (cases k) simp_all
  qed
  moreover have "dict_merge [] d = [] @ d"
    using 2(2) by (intro dict_merge_fresh) (simp_all add: list_all_iff)
  ultimately show ?case by simp
qed simp_all




lemma json_val_to_dict: "json_context s \<Longrightarrow> json_val (to_dict s)"
  by (simp add: json_context_def to_dict_def json_entry_def entry_to_dict_def list_all_iff)














section \<open>The exported document\<close>

lemma str_keys_dict_set:
  "list_all (\<lambda>kv. is_str_key (fst kv)) d \<Longrightarrow> is_str_key k \<Longrightarrow>
   list_all (\<lambda>kv. is_str_key (fst kv)) (dict_set d k v)"
  by (induction d k v rule: dict_set.induct) simp_all

lemma str_keys_dict_merge:
  "list_all (\<lambda>kv. is_str_key (fst kv)) d \<Longrightarrow> distinct (map fst d) \<Longrightarrow>
   list_all (\<lambda>kv. is_str_key (fst kv)) other \<Longrightarrow>
   list_all (\<lambda>kv. is_str_key (fst kv)) (dict_merge d other) \<and>
   distinct (map fst (dict_merge d other))"
proof (induction other arbitrary: d)
  case Nil
  then show ?case by (simp add: dict_merge_Nil)
next
  case (Cons kv other)
  have k: "is_str_key (fst kv)"
    using Cons.prems(3) by simp
  have "list_all (\<lambda>kv. is_str_key (fst kv)) (dict_set d (fst kv) (snd kv))"
    using Cons.prems(1) k by (rule str_keys_dict_set)
  moreover have "distinct (map fst (dict_set d (fst kv) (snd kv)))"
    using Cons.prems(2) by (simp add: map_fst_dict_set [OF k])
  moreover have "list_all (\<lambda>kv. is_str_key (fst kv)) other"
    using Cons.prems(3) by simp
  ultimately show ?case
    using Cons.IH by (simp add: dict_merge_Cons)
qed

lemma json_dump_load_list: "is_list v \<Longrightarrow> is_list (json_dump_load v)"
  by (cases v) simp_all

lemma json_dump_load_dict:
  assumes "is_dict v"
  shows "\<exists>kvs. json_dump_load v = PDict kvs \<and> list_all (\<lambda>kv. is_str_key (fst kv)) kvs \<and>
           distinct (map fst kvs)"
proof -
  obtain d where v: "v = PDict d"
    using assms by (cases v) simp_all
  let ?items = "map (\<lambda>(k, v). (KStr (json_key k), json_dump_load v)) d"
  have "list_all (\<lambda>kv. is_str_key (fst kv)) ?items"
    by (simp add: list_all_iff split_beta)
  then have "list_all (\<lambda>kv. is_str_key (fst kv)) (dict_merge [] ?items) \<and>
             distinct (map fst (dict_merge [] ?items))"
    by (intro str_keys_dict_merge) simp_all
  then show ?thesis
    using v by simp
qed

lemma json_dump_load_entry:
  "json_dump_load (entry_to_dict c) =
     PDict [(KStr ''model'', json_dump_load (model c)),
            (KStr ''timestamp'', json_dump_load (timestamp c)),
            (KStr ''content'', json_dump_load (content c))]"
  by (simp add: entry_to_dict_def dict_merge_def key_eq_def)

lemma export_context_fields:
  "export_context s =
     PDict [(KStr ''conversations'', PList (map (\<lambda>c. json_dump_load (entry_to_dict c)) (conversations s))),
            (KStr ''tool_outputs'', json_dump_load (tool_outputs s)),
            (KStr ''discovered_info'', json_dump_load (discovered_info s))]"
  by (simp add: export_context_def to_dict_def dict_merge_def key_eq_def comp_def)

text \<open>
  C5, as stated, fails on the names of the record fields: an exported entry has the
  fields \<^verbatim>\<open>model\<close>, \<^verbatim>\<open>timestamp\<close>, \<^verbatim>\<open>content\<close>, and a document whose records have
  the fields \<^verbatim>\<open>producer\<close>, \<^verbatim>\<open>timestamp\<close>, \<^verbatim>\<open>payload\<close> is refused by
  \<^verbatim>\<open>import_context\<close> with a TypeError.
\<close>

theorem export_field_names_counterexample:
  "export_context \<lparr>conversations = [new_entry ''claude'' ''T1'' []],
                    tool_outputs = PList [], discovered_info = PDict []\<rparr> =
     PDict [(KStr ''conversations'',
             PList [PDict [(KStr ''model'', PStr ''claude''), (KStr ''timestamp'', PStr ''T1''),
                           (KStr ''content'', PDict [])]]),
            (KStr ''tool_outputs'', PList []),
            (KStr ''discovered_info'', PDict [])] \<and>
   import_context
     (Inr (PDict [(KStr ''conversations'',
                   PList [PDict [(KStr ''producer'', PStr ''claude''), (KStr ''timestamp'', PStr ''T1''),
                                 (KStr ''payload'', PDict [])]]),
                  (KStr ''tool_outputs'', PList []),
                  (KStr ''discovered_info'', PDict [])]))
     empty_context = (Some TypeError, empty_context)"
  by (simp add: export_context_fields json_dump_load_entry new_entry_def dict_merge_def
      import_context_def py_get_def entry_from_def entry_fields_def key_eq_def)

text \<open>
  C5, amended. For every store the exported document is one dictionary with exactly the
  three fields \<^verbatim>\<open>conversations\<close>, \<^verbatim>\<open>tool_outputs\<close>, \<^verbatim>\<open>discovered_info\<close>;
  \<^verbatim>\<open>conversations\<close> is the list, in log order, of one record per entry with exactly the
  fields \<^verbatim>\<open>model\<close>, \<^verbatim>\<open>timestamp\<close>, \<^verbatim>\<open>content\<close> (the producer, the timestamp and the
  payload of the entry); \<^verbatim>\<open>tool_outputs\<close> is a list when the store's buffer is one, and
  \<^verbatim>\<open>discovered_info\<close> is a dictionary with string keys, no two equal, when the store's
  map is a dictionary.
\<close>

theorem export_format:
  "\<exists>tos di.
     export_context s =
       PDict [(KStr ''conversations'',
               PList (map (\<lambda>c. PDict [(KStr ''model'', json_dump_load (model c)),
                                       (KStr ''timestamp'', json_dump_load (timestamp c)),
                                       (KStr ''content'', json_dump_load (content c))])
                          (conversations s))),
              (KStr ''tool_outputs'', tos),
              (KStr ''discovered_info'', di)] \<and>
     (is_list (tool_outputs s) \<longrightarrow> is_list tos) \<and>
     (is_dict (discovered_info s) \<longrightarrow>
        (\<exists>kvs. di = PDict kvs \<and> list_all (\<lambda>kv. is_str_key (fst kv)) kvs \<and>
               distinct (map fst kvs)))"
proof -
  have a: "export_context s =
       PDict [(KStr ''conversations'',
               PList (map (\<lambda>c. PDict [(KStr ''model'', json_dump_load (model c)),
                                       (KStr ''timestamp'', json_dump_load (timestamp c)),
                                       (KStr ''content'', json_dump_load (content c))])
                          (conversations s))),
              (KStr ''tool_outputs'', json_dump_load (tool_outputs s)),
              (KStr ''discovered_info'', json_dump_load (discovered_info s))]"
    by (simp only: export_context_fields json_dump_load_entry)
  have b: "is_list (tool_outputs s) \<longrightarrow> is_list (json_dump_load (tool_outputs s))"
    using json_dump_load_list by blast
  have c: "is_dict (discovered_info s) \<longrightarrow>
        (\<exists>kvs. json_dump_load (discovered_info s) = PDict kvs \<and>
               list_all (\<lambda>kv. is_str_key (fst kv)) kvs \<and> distinct (map fst kvs))"
    using json_dump_load_dict by blast
  show ?thesis
    by (intro exI [of _ "json_dump_load (tool_outputs s)"]
        exI [of _ "json_dump_load (discovered_info s)"] conjI a b c)
qed

theorem export_format_witness:
  "export_context scenario =
     PDict [(KStr ''conversations'',
             PList [PDict [(KStr ''model'', PStr ''claude''), (KStr ''timestamp'', PStr ''T1''),
                           (KStr ''content'',
                            PDict [(KStr ''summary'', PStr ''s1''),
                                   (KStr ''discoveries'', PDict [(KStr ''lang'', PStr ''py'')])])],
                    PDict [(KStr ''model'', PStr ''gpt4''), (KStr ''timestamp'', PStr ''T2''),
                           (KStr ''content'',
                            PDict [(KStr ''summary'', PStr ''s2''),
                                   (KStr ''findings'', PList [PStr ''f1''])])]]),
            (KStr ''tool_outputs'', PList []),
            (KStr ''discovered_info'', PDict [(KStr ''lang'', PStr ''py'')])]"
proof -
  have e: "export_context scenario = to_dict scenario"
    by (simp add: export_context_def json_dump_load_id json_val_to_dict json_context_def
        json_entry_def scenario_def)
  obtain tos di where t: "export_context scenario =
       PDict [(KStr ''conversations'',
               PList (map (\<lambda>c. PDict [(KStr ''model'', json_dump_load (model c)),
                                       (KStr ''timestamp'', json_dump_load (timestamp c)),
                                       (KStr ''content'', json_dump_load (content c))])
                          (conversations scenario))),
              (KStr ''tool_outputs'', tos),
              (KStr ''discovered_info'', di)]"
    using export_format [of scenario] by blast
  have "tos = PList []" "di = PDict [(KStr ''lang'', PStr ''py'')]"
    using t unfolding e by (simp_all add: to_dict_def scenario_def)
  then show ?thesis
    using t by (simp add: scenario_def dict_merge_def key_eq_def)
qed

section \<open>A key that is not a string\<close>





end
